theory Spec2Isabelle
  imports Complex_Main "HOL-Library.Multiset" "HOL-Library.Sublist"
begin

section \<open>Python strings\<close>

text \<open>
  A Python \<open>str\<close> is modelled as a \<open>string\<close>: a list of code points below 256
  (ASCII and Latin-1), one \<open>char\<close> per code point, so that \<open>length\<close> is Python's
  \<open>len\<close>. Floats that the code writes as literals or obtains by dividing two
  counts are modelled by the rationals they denote.
\<close>

definition is_space :: "char \<Rightarrow> bool" where
  \<comment> \<open>\<open>str.isspace\<close> on one code point below 256; also the class \<open>\s\<close> of \<open>re\<close>.\<close>
  "is_space c = (of_char c \<in> {9, 10, 11, 12, 13, 28, 29, 30, 31, 32, 133, 160 :: nat})"

definition is_upper :: "char \<Rightarrow> bool" where
  "is_upper c =
     (let n = (of_char c :: nat)
      in (65 \<le> n \<and> n \<le> 90) \<or> (192 \<le> n \<and> n \<le> 222 \<and> n \<noteq> 215))"

definition lower_char :: "char \<Rightarrow> char" where
  "lower_char c = (if is_upper c then char_of (of_char c + (32 :: nat)) else c)"

definition lower :: "string \<Rightarrow> string" where
  \<comment> \<open>\<open>s.lower()\<close>\<close>
  "lower s = map lower_char s"

definition strip :: "string \<Rightarrow> string" where
  \<comment> \<open>\<open>s.strip()\<close>\<close>
  "strip s = rev (dropWhile is_space (rev (dropWhile is_space s)))"

fun startswith :: "string \<Rightarrow> string \<Rightarrow> bool" where
  "startswith s [] = True"
| "startswith [] (p # ps) = False"
| "startswith (c # cs) (p # ps) = (c = p \<and> startswith cs ps)"

fun contains :: "string \<Rightarrow> string \<Rightarrow> bool" where
  \<comment> \<open>\<open>p in s\<close> for two strings\<close>
  "contains [] p = (p = [])"
| "contains (c # cs) p = (startswith (c # cs) p \<or> contains cs p)"

fun split_acc :: "string \<Rightarrow> string \<Rightarrow> string list" where
  \<comment> \<open>the scan of \<open>s.split()\<close>; the first argument is the current word, reversed\<close>
  "split_acc w [] = (if w = [] then [] else [rev w])"
| "split_acc w (c # cs) =
     (if is_space c then (if w = [] then split_acc [] cs else rev w # split_acc [] cs)
      else split_acc (c # w) cs)"

definition split :: "string \<Rightarrow> string list" where
  \<comment> \<open>\<open>s.split()\<close>: the maximal runs of non-blank characters\<close>
  "split s = split_acc [] s"

fun join :: "string \<Rightarrow> string list \<Rightarrow> string" where
  \<comment> \<open>\<open>sep.join(xs)\<close>\<close>
  "join sep [] = []"
| "join sep [x] = x"
| "join sep (x # y # ys) = x @ sep @ join sep (y # ys)"

definition digit_char :: "nat \<Rightarrow> char" where
  "digit_char d = char_of (48 + d)"

fun str_nat :: "nat \<Rightarrow> string" where
  \<comment> \<open>\<open>str(n)\<close> for a non-negative integer: its decimal digits\<close>
  "str_nat n = (if n < 10 then [digit_char n] else str_nat (n div 10) @ [digit_char (n mod 10)])"

declare str_nat.simps [simp del]

definition str_int :: "int \<Rightarrow> string" where
  \<comment> \<open>\<open>str(i)\<close>\<close>
  "str_int i = (if i < 0 then CHR ''-'' # str_nat (nat (- i)) else str_nat (nat i))"

definition is_terminator :: "char \<Rightarrow> bool" where
  \<comment> \<open>the class \<open>[.!?]\<close>\<close>
  "is_terminator c = (c = CHR ''.'' \<or> c = CHR ''!'' \<or> c = CHR ''?'')"

function re_split_terminators :: "string \<Rightarrow> string \<Rightarrow> string list" where
  \<comment> \<open>the scan of \<open>re.split(r'[.!?]+', s)\<close>; the first argument is the current
      piece, reversed. Every maximal run of terminators is one separator.\<close>
  "re_split_terminators piece [] = [rev piece]"
| "re_split_terminators piece (c # cs) =
     (if is_terminator c then rev piece # re_split_terminators [] (dropWhile is_terminator cs)
      else re_split_terminators (c # piece) cs)"
  by pat_completeness auto

termination
  by (relation "measure (\<lambda>(piece, s). length s)")
     (auto simp: less_Suc_eq_le length_dropWhile_le)

section \<open>services/validation\_service.py\<close>

record validation_result =
  is_valid :: bool
  issues :: "string list"
  confidence :: rat

record context_chunk =
  content :: string

definition known_absence_phrases :: "string list" where
  "known_absence_phrases =
     [''not available in the book'',
      ''not found in the book'',
      ''not mentioned in the book'',
      ''no information in the book'',
      ''book does not contain'',
      ''not provided in the book'',
      ''not specified in the book'']"

definition generic_indicators :: "string list" where
  "generic_indicators =
     [''generally.*'',
      ''in general.*'',
      ''typically.*'',
      ''usually.*'',
      ''most.*'',
      ''many.*'',
      ''external sources.*'',
      ''other sources.*'',
      ''from external knowledge.*'']"

definition re_search_ignorecase :: "string \<Rightarrow> string \<Rightarrow> bool" where
  \<comment> \<open>\<open>re.search(pattern, text, re.IGNORECASE)\<close> for the patterns of
      \<open>generic_indicators\<close>: a literal followed by \<open>.*\<close>, which matches as soon as the
      literal occurs, whatever follows.\<close>
  "re_search_ignorecase pattern text =
     contains (lower text) (lower (take (length pattern - 2) pattern))"

definition has_absence_indicator :: "string \<Rightarrow> bool" where
  "has_absence_indicator response_lower =
     list_ex (\<lambda>phrase. contains response_lower phrase) known_absence_phrases"

definition generic_step :: "string \<Rightarrow> string \<Rightarrow> validation_result \<Rightarrow> validation_result" where
  \<comment> \<open>one round of the loop over \<open>generic_indicators\<close>\<close>
  "generic_step response_lower indicator vr =
     (if re_search_ignorecase indicator response_lower
      then vr\<lparr>issues := issues vr @ [''Response contains generic knowledge indicator: '' @ indicator],
              is_valid := False,
              confidence := 3 / 10\<rparr>
      else vr)"

definition validate_book_based_response ::
  "string \<Rightarrow> 'a context_chunk_scheme list \<Rightarrow> validation_result" where
  "validate_book_based_response response context_chunks =
     (let validation_result = \<lparr>is_valid = True, issues = [], confidence = 1\<rparr>;
          response_lower = lower response
      in if has_absence_indicator response_lower
         then validation_result\<lparr>confidence := 9 / 10\<rparr>
         else
           let vr = fold (generic_step response_lower) generic_indicators validation_result
           in if context_chunks \<noteq> [] then
                let context_text = join '' '' (map content context_chunks)
                in if length (strip context_text) < 50 \<and> length (strip response) > 100
                   then vr\<lparr>issues := issues vr @ [''Detailed response provided with minimal context''],
                           is_valid := False,
                           confidence := 2 / 10\<rparr>
                   else vr
              else vr)"

definition service_validate_selected_text_response :: "string \<Rightarrow> string \<Rightarrow> validation_result" where
  \<comment> \<open>\<open>ValidationService.validate_selected_text_response\<close>\<close>
  "service_validate_selected_text_response response selected_text =
     (let validation_result = \<lparr>is_valid = True, issues = [], confidence = 1\<rparr>;
          response_lower = lower response
      in if has_absence_indicator response_lower
         then validation_result\<lparr>confidence := 9 / 10\<rparr>
         else
           let vr1 =
                 (if strip selected_text = [] \<and> length (strip response) > 50
                  then validation_result
                         \<lparr>issues := issues validation_result
                                      @ [''Response provided without selected text context''],
                          is_valid := False,
                          confidence := 1 / 10\<rparr>
                  else validation_result)
           in if selected_text \<noteq> [] \<and> length (strip response) > 20 then
                let selected_lower = lower selected_text;
                    response_words = set (split response_lower);
                    selected_words = set (split selected_lower)
                in if selected_words \<noteq> {} then
                     let overlap = card (response_words \<inter> selected_words);
                         total_response_words = card response_words
                     in if total_response_words > 0
                           \<and> (of_nat overlap / of_nat total_response_words :: rat) < 1 / 10
                        then vr1\<lparr>issues := issues vr1
                                     @ [''Low semantic overlap between response and selected text''],
                                 confidence := 5 / 10\<rparr>
                        else vr1
                   else vr1
              else vr1)"

section \<open>utils/validation.py\<close>

record verdict =
  v_is_valid :: bool
  v_errors :: "string list"
  v_confidence :: rat
  v_validation_note :: "string option"
  v_valid_sentences_count :: "nat option"
  v_invalid_sentences_count :: "nat option"
  v_total_sentences :: "nat option"

definition external_indicators :: "string list" where
  "external_indicators =
     [''i don't know'',
      ''not in the provided text'',
      ''not found in the selected text'',
      ''not mentioned in the text'',
      ''not specified in the text'']"

definition response_sentences_of :: "string \<Rightarrow> string list" where
  \<comment> \<open>\<open>[s.strip() for s in re.split(r'[.!?]+', response) if s.strip()]\<close>\<close>
  "response_sentences_of response =
     map strip (filter (\<lambda>s. strip s \<noteq> []) (re_split_terminators [] response))"

definition meaningful_words :: "string \<Rightarrow> string set" where
  \<comment> \<open>\<open>set([word for word in text.split() if len(word) > 3])\<close>\<close>
  "meaningful_words text = set (filter (\<lambda>word. length word > 3) (split text))"

definition sentence_step ::
  "string \<Rightarrow> string \<Rightarrow> string list \<times> string list \<Rightarrow> string list \<times> string list" where
  \<comment> \<open>one round of the loop over \<open>response_sentences\<close>; the state is
      \<open>(invalid_sentences, valid_sentences)\<close>\<close>
  "sentence_step selected_text_lower sentence st =
     (let (invalid_sentences, valid_sentences) = st;
          sentence_lower = strip (lower sentence)
      in if sentence_lower \<noteq> [] then
           let sentence_words = meaningful_words sentence_lower;
               selected_words = meaningful_words selected_text_lower
           in if sentence_words \<noteq> {} then
                let common_words = sentence_words \<inter> selected_words;
                    overlap_ratio = (of_nat (card common_words) / of_nat (card sentence_words) :: rat)
                in if overlap_ratio < 3 / 10
                   then (invalid_sentences @ [sentence], valid_sentences)
                   else (invalid_sentences, valid_sentences @ [sentence])
              else (invalid_sentences, valid_sentences)
         else (invalid_sentences, valid_sentences))"

definition invalid_fraction_error :: "nat \<Rightarrow> nat \<Rightarrow> string" where
  "invalid_fraction_error n_invalid total_sentences =
     ''Response contains information not found in selected text. '' @ str_nat n_invalid @ ''/''
       @ str_nat total_sentences @ '' sentences appear to be outside the selected text context.''"

definition validate_selected_text_response :: "string \<Rightarrow> string \<Rightarrow> verdict" where
  "validate_selected_text_response response selected_text =
     (if response = [] then
        \<lparr>v_is_valid = False, v_errors = [''Response cannot be empty''], v_confidence = 0,
         v_validation_note = None, v_valid_sentences_count = None,
         v_invalid_sentences_count = None, v_total_sentences = None\<rparr>
      else if selected_text = [] then
        \<lparr>v_is_valid = False, v_errors = [''Selected text cannot be empty for validation''],
         v_confidence = 0,
         v_validation_note = None, v_valid_sentences_count = None,
         v_invalid_sentences_count = None, v_total_sentences = None\<rparr>
      else
        let response_lower = lower response;
            selected_text_lower = lower selected_text;
            response_sentences = response_sentences_of response;
            (invalid_sentences, valid_sentences) =
               fold (sentence_step selected_text_lower) response_sentences ([], []);
            total_sentences = length response_sentences;
            errors =
              (if total_sentences > 0
                  \<and> (of_nat (length invalid_sentences) / of_nat total_sentences :: rat) > 1 / 2
               then [invalid_fraction_error (length invalid_sentences) total_sentences]
               else [])
        in if list_ex (\<lambda>indicator. contains response_lower indicator) external_indicators then
             \<lparr>v_is_valid = True, v_errors = [], v_confidence = 1,
              v_validation_note =
                Some ''Response properly indicates information not available in selected text'',
              v_valid_sentences_count = None,
              v_invalid_sentences_count = None, v_total_sentences = None\<rparr>
           else
             let confidence =
                   (if total_sentences > 0
                    then min 1 (of_nat (length valid_sentences) / of_nat total_sentences :: rat)
                    else 0)
             in \<lparr>v_is_valid = (length errors = 0), v_errors = errors, v_confidence = confidence,
                 v_validation_note = None,
                 v_valid_sentences_count = Some (length valid_sentences),
                 v_invalid_sentences_count = Some (length invalid_sentences),
                 v_total_sentences = Some total_sentences\<rparr>)"

section \<open>services/retrieval\_service.py\<close>

text \<open>
  A retrieval result is the dictionary \<open>search_chunks\<close> builds; the ranking loop adds the
  key \<open>composite_score\<close> to it (the keys \<open>chapter\<close> and \<open>section\<close> are the fields
  \<open>chapter_name\<close> and \<open>section_name\<close>). Scores are floats other than NaN, which are linearly
  ordered: the score type is any linear order. The vector search is outside the
  repository's logic and is a parameter.
\<close>

record chunk_fields = context_chunk +
  chunk_id :: string
  document_id :: string
  title :: string
  chapter_name :: string
  section_name :: string
  source_path :: string

record 's retrieval_result = chunk_fields +
  similarity_score :: 's

record 's ranked_result = "'s retrieval_result" +
  composite_score :: 's

fun insort_reverse :: "('a \<Rightarrow> 'k::linorder) \<Rightarrow> 'a \<Rightarrow> 'a list \<Rightarrow> 'a list" where
  "insort_reverse key x [] = [x]"
| "insort_reverse key x (y # ys) =
     (if key y \<le> key x then x # y # ys else y # insort_reverse key x ys)"

definition sort_reverse :: "('a \<Rightarrow> 'k::linorder) \<Rightarrow> 'a list \<Rightarrow> 'a list" where
  \<comment> \<open>Python's \<open>xs.sort(key=key, reverse=True)\<close>: descending by key, and elements
      with equal keys keep their order.\<close>
  "sort_reverse key xs = foldr (insort_reverse key) xs []"

definition set_composite_score :: "'s retrieval_result \<Rightarrow> 's ranked_result" where
  \<comment> \<open>\<open>chunk['composite_score'] = chunk['similarity_score']\<close>\<close>
  "set_composite_score chunk =
     retrieval_result.extend chunk
       (ranked_result.fields (similarity_score chunk))"

definition retrieve_relevant_chunks ::
  "(string \<Rightarrow> int \<Rightarrow> string option \<Rightarrow> 's retrieval_result list)
   \<Rightarrow> string \<Rightarrow> int \<Rightarrow> string option \<Rightarrow> 's retrieval_result list" where
  "retrieve_relevant_chunks search_chunks query top_k selected_text =
     search_chunks query top_k selected_text"

definition retrieve_and_rank ::
  "(string \<Rightarrow> int \<Rightarrow> string option \<Rightarrow> ('s::linorder) retrieval_result list)
   \<Rightarrow> string \<Rightarrow> int \<Rightarrow> 's ranked_result list" where
  "retrieve_and_rank search_chunks query top_k =
     (let chunks = retrieve_relevant_chunks search_chunks query top_k None;
          chunks = map set_composite_score chunks
      in sort_reverse composite_score chunks)"

section \<open>utils/chunking\_utils.py\<close>

text \<open>
  The tokenizer (tiktoken's \<open>cl100k_base\<close>) is outside the repository: it is a
  parameter, a pair of an encoder and a decoder over any type of tokens, together with
  the list of the spellings of its special tokens. \<open>tokenizer.encode(text)\<close> raises
  \<open>ValueError\<close> on a text in which a special token is spelled, and returns the tokens of
  the text otherwise. Python's \<open>hash\<close> of a string and \<open>uuid5\<close> in the URL namespace are
  parameters as well; \<open>hash\<close> of a \<open>str\<close> is keyed by a seed the interpreter draws when
  it starts (unless \<open>PYTHONHASHSEED\<close> fixes it), so each run of the program has a hash
  function of its own.
\<close>

record 'tok tokenizer =
  encode :: "string \<Rightarrow> 'tok list"
  decode :: "'tok list \<Rightarrow> string"

function collapse_whitespace :: "string \<Rightarrow> string" where
  \<comment> \<open>\<open>re.sub(r'\s+', ' ', text)\<close>\<close>
  "collapse_whitespace [] = []"
| "collapse_whitespace (c # cs) =
     (if is_space c then CHR '' '' # collapse_whitespace (dropWhile is_space cs)
      else c # collapse_whitespace cs)"
  by pat_completeness auto

termination
  by (relation "measure length") (auto simp: less_Suc_eq_le length_dropWhile_le)

definition clean_text :: "string \<Rightarrow> string" where
  "clean_text text = strip (collapse_whitespace text)"

definition slice :: "'a list \<Rightarrow> int \<Rightarrow> int \<Rightarrow> 'a list" where
  \<comment> \<open>\<open>xs[start:stop]\<close>: a negative index counts from the end, and both are clipped
      to the list.\<close>
  "slice xs start stop =
     (let n = int (length xs);
          clip = (\<lambda>i. if i < 0 then max (i + n) 0 else min i n);
          lo = clip start;
          hi = clip stop
      in take (nat (hi - lo)) (drop (nat lo) xs))"

partial_function (option) token_loop ::
  "'tok tokenizer \<Rightarrow> 'tok list \<Rightarrow> int \<Rightarrow> int \<Rightarrow> int \<Rightarrow> string list \<Rightarrow> string list option" where
  \<comment> \<open>the \<open>while\<close> loop of \<open>chunk_text_by_tokens\<close>, from the state \<open>(start_idx, chunks)\<close>;
      \<open>None\<close> when it never ends\<close>
  "token_loop tokenizer tokens max_tokens overlap_tokens start_idx chunks =
     (if start_idx < int (length tokens) then
        let end_idx = start_idx + max_tokens;
            end_idx = (if end_idx < int (length tokens) then end_idx + overlap_tokens else end_idx);
            token_chunk = slice tokens start_idx end_idx;
            chunk_text = clean_text (decode tokenizer token_chunk);
            chunks = (if chunk_text \<noteq> [] then chunks @ [chunk_text] else chunks)
        in token_loop tokenizer tokens max_tokens overlap_tokens (start_idx + max_tokens) chunks
      else Some chunks)"

declare token_loop.simps [code]

datatype py_error = ValueError

definition spells_special_token :: "string list \<Rightarrow> string \<Rightarrow> bool" where
  "spells_special_token special_tokens text =
     list_ex (\<lambda>special. contains text special) special_tokens"

definition tokenizer_encode :: "'tok tokenizer \<Rightarrow> string list \<Rightarrow> string \<Rightarrow> py_error + 'tok list" where
  \<comment> \<open>\<open>tokenizer.encode(text)\<close>, with the \<open>ValueError\<close> it raises\<close>
  "tokenizer_encode tokenizer special_tokens text =
     (if spells_special_token special_tokens text then Inl ValueError
      else Inr (encode tokenizer text))"

definition chunk_text_by_tokens ::
  "'tok tokenizer \<Rightarrow> string \<Rightarrow> int \<Rightarrow> int \<Rightarrow> string list option" where
  \<comment> \<open>on a text that spells no special token; the callers below test that before
      they call\<close>
  "chunk_text_by_tokens tokenizer text max_tokens overlap_tokens =
     (if strip text = [] then Some []
      else token_loop tokenizer (encode tokenizer text) max_tokens overlap_tokens 0 [])"

function re_split_sentence_ends :: "string \<Rightarrow> string \<Rightarrow> string list" where
  \<comment> \<open>the scan of \<open>re.split(r'[.!?]+\s+', text)\<close>; the first argument is the current
      piece, reversed. A separator is a maximal run of terminators followed by a maximal
      run of blanks; a run of terminators that no blank follows stays in the piece.\<close>
  "re_split_sentence_ends piece [] = [rev piece]"
| "re_split_sentence_ends piece (c # cs) =
     (if is_terminator c then
        (if dropWhile is_terminator cs \<noteq> [] \<and> is_space (hd (dropWhile is_terminator cs))
         then rev piece # re_split_sentence_ends [] (dropWhile is_space (dropWhile is_terminator cs))
         else re_split_sentence_ends (rev (takeWhile is_terminator cs) @ c # piece)
                (dropWhile is_terminator cs))
      else re_split_sentence_ends (c # piece) cs)"
  by pat_completeness auto

termination
proof (relation "measure (\<lambda>(piece, s). length s)")
  fix cs :: string
  have "length (dropWhile is_space (dropWhile is_terminator cs)) \<le> length (dropWhile is_terminator cs)"
    by (rule length_dropWhile_le)
  also have "\<dots> \<le> length cs"
    by (rule length_dropWhile_le)
  finally show "\<And>piece c. (([], dropWhile is_space (dropWhile is_terminator cs)), piece, c # cs)
      \<in> measure (\<lambda>(piece, s). length s)"
    by simp
qed (auto simp: less_Suc_eq_le length_dropWhile_le)

fun sentence_loop ::
  "'tok tokenizer \<Rightarrow> string list \<Rightarrow> int \<Rightarrow> string list \<Rightarrow> string list \<Rightarrow> string
   \<Rightarrow> (py_error + string list \<times> string) option" where
  \<comment> \<open>the \<open>for\<close> loop of \<open>chunk_text_by_sentences\<close>, from the state
      \<open>(chunks, current_chunk)\<close>; \<open>None\<close> when the fallback never ends, \<open>Inl\<close> when
      \<open>tokenizer.encode\<close> raises. The fallback is reached only after the sentence has
      been encoded.\<close>
  "sentence_loop tokenizer special_tokens max_tokens [] chunks current_chunk =
     Some (Inr (chunks, current_chunk))"
| "sentence_loop tokenizer special_tokens max_tokens (sentence # sentences) chunks current_chunk =
     (let test_chunk = (if current_chunk \<noteq> [] then current_chunk @ '' '' @ sentence else sentence)
      in case tokenizer_encode tokenizer special_tokens test_chunk of
           Inl e \<Rightarrow> Some (Inl e)
         | Inr test_tokens \<Rightarrow>
             if int (length test_tokens) \<le> max_tokens
             then sentence_loop tokenizer special_tokens max_tokens sentences chunks test_chunk
             else
               let chunks = (if strip current_chunk \<noteq> [] then chunks @ [clean_text current_chunk]
                             else chunks)
               in case tokenizer_encode tokenizer special_tokens sentence of
                    Inl e \<Rightarrow> Some (Inl e)
                  | Inr sentence_tokens \<Rightarrow>
                      if int (length sentence_tokens) > max_tokens
                      then (case chunk_text_by_tokens tokenizer sentence max_tokens 0 of
                              None \<Rightarrow> None
                            | Some sub_chunks \<Rightarrow>
                                sentence_loop tokenizer special_tokens max_tokens sentences
                                  (chunks @ sub_chunks) current_chunk)
                      else sentence_loop tokenizer special_tokens max_tokens sentences chunks
                             sentence)"

definition chunk_text_by_sentences ::
  "'tok tokenizer \<Rightarrow> string list \<Rightarrow> string \<Rightarrow> int \<Rightarrow> (py_error + string list) option" where
  "chunk_text_by_sentences tokenizer special_tokens text max_tokens =
     (if strip text = [] then Some (Inr [])
      else
        (case sentence_loop tokenizer special_tokens max_tokens (re_split_sentence_ends [] text)
                [] [] of
           None \<Rightarrow> None
         | Some (Inl e) \<Rightarrow> Some (Inl e)
         | Some (Inr (chunks, current_chunk)) \<Rightarrow>
             Some (Inr (if strip current_chunk \<noteq> [] then chunks @ [clean_text current_chunk]
                        else chunks))))"

datatype metadata_value = MInt int | MStr string

record chunk = chunk_fields +
  metadata :: "(string \<times> metadata_value) list"

definition chunk_name :: "(string \<Rightarrow> int) \<Rightarrow> string \<Rightarrow> string \<Rightarrow> string" where
  \<comment> \<open>\<open>f"{source_path}_{len(content)}_{hash(content)}"\<close>\<close>
  "chunk_name hash src_path text =
     src_path @ ''_'' @ str_nat (length text) @ ''_'' @ str_int (hash text)"

definition create_chunk_dict ::
  "(string \<Rightarrow> string) \<Rightarrow> (string \<Rightarrow> int) \<Rightarrow> string \<Rightarrow> string \<Rightarrow> string \<Rightarrow> string \<Rightarrow> string
   \<Rightarrow> string \<Rightarrow> (string \<times> metadata_value) list option \<Rightarrow> chunk" where
  \<comment> \<open>the parameters \<open>content\<close>, \<open>source_path\<close>, \<open>document_id\<close>, \<open>title\<close> and \<open>metadata\<close>
      are written \<open>text\<close>, \<open>src_path\<close>, \<open>doc_id\<close>, \<open>doc_title\<close> and \<open>meta\<close>\<close>
  "create_chunk_dict uuid5 hash text src_path doc_id doc_title chapter section meta =
     (let meta = (case meta of None \<Rightarrow> [] | Some m \<Rightarrow> m);
          cid = uuid5 (chunk_name hash src_path text)
      in \<lparr>content = text, chunk_id = cid, document_id = doc_id, title = doc_title,
          chapter_name = chapter, section_name = section, source_path = src_path,
          metadata = meta\<rparr>)"

definition chunk_document ::
  "'tok tokenizer \<Rightarrow> string list \<Rightarrow> (string \<Rightarrow> string) \<Rightarrow> (string \<Rightarrow> int) \<Rightarrow> string \<Rightarrow> string
   \<Rightarrow> string \<Rightarrow> string \<Rightarrow> string \<Rightarrow> string \<Rightarrow> string \<Rightarrow> int \<Rightarrow> int
   \<Rightarrow> (py_error + chunk list) option" where
  "chunk_document tokenizer special_tokens uuid5 hash text src_path doc_id doc_title chapter
       section chunk_method max_tokens overlap_tokens =
     (case (if chunk_method = ''sentences''
            then chunk_text_by_sentences tokenizer special_tokens text max_tokens
            else if strip text \<noteq> [] \<and> spells_special_token special_tokens text
            then Some (Inl ValueError)
            else map_option Inr
                   (chunk_text_by_tokens tokenizer text max_tokens overlap_tokens)) of
        None \<Rightarrow> None
      | Some (Inl e) \<Rightarrow> Some (Inl e)
      | Some (Inr chunks) \<Rightarrow>
          Some (Inr (map (\<lambda>(i, chunk_content).
                  create_chunk_dict uuid5 hash chunk_content src_path doc_id doc_title
                    chapter section
                    (Some [(''chunk_index'', MInt (int i)),
                           (''total_chunks'', MInt (int (length chunks))),
                           (''method'', MStr chunk_method)]))
                (enumerate 0 chunks))))"

section \<open>Specification-level notions and examples\<close>

text \<open>
  The definitions below are not part of the program. Those named \<open>spec_\<close> follow the
  words of the specification and are compared with the program; the others are the
  predicates the theorems are stated with, and the concrete tokenizers, search results
  and hash functions the theorems are instantiated at.
\<close>

definition spec_sentence_words :: "string \<Rightarrow> string set" where
  \<comment> \<open>the words of a sentence that are longer than 3 characters, in lower case\<close>
  "spec_sentence_words sentence = meaningful_words (strip (lower sentence))"

definition spec_overlap_ratio :: "string \<Rightarrow> string \<Rightarrow> rat" where
  \<comment> \<open>|intersection| / |sentence word set|\<close>
  "spec_overlap_ratio selected_text sentence =
     of_nat (card (spec_sentence_words sentence \<inter> meaningful_words (lower selected_text)))
       / of_nat (card (spec_sentence_words sentence))"

definition spec_invalid_sentence :: "string \<Rightarrow> string \<Rightarrow> bool" where
  "spec_invalid_sentence selected_text sentence =
     (spec_sentence_words sentence \<noteq> {} \<and> spec_overlap_ratio selected_text sentence < 3 / 10)"

definition spec_valid_sentence :: "string \<Rightarrow> string \<Rightarrow> bool" where
  "spec_valid_sentence selected_text sentence =
     (spec_sentence_words sentence \<noteq> {} \<and> \<not> spec_overlap_ratio selected_text sentence < 3 / 10)"

definition spec_sentence_verdict :: "string \<Rightarrow> string \<Rightarrow> verdict" where
  \<comment> \<open>the verdict of the sentence analysis, in the words of the specification, with
      the case of no sentence (confidence 0) written out\<close>
  "spec_sentence_verdict response selected_text =
     (let sentences = response_sentences_of response;
          n_invalid = length (filter (spec_invalid_sentence selected_text) sentences);
          n_valid = length (filter (spec_valid_sentence selected_text) sentences);
          n = length sentences;
          rejected = (n > 0 \<and> (of_nat n_invalid / of_nat n :: rat) > 1 / 2)
      in \<lparr>v_is_valid = (\<not> rejected),
          v_errors = (if rejected then [invalid_fraction_error n_invalid n] else []),
          v_confidence = (if n > 0 then min 1 (of_nat n_valid / of_nat n) else 0),
          v_validation_note = None,
          v_valid_sentences_count = Some n_valid,
          v_invalid_sentences_count = Some n_invalid,
          v_total_sentences = Some n\<rparr>)"

definition example_result :: "string \<Rightarrow> rat \<Rightarrow> rat retrieval_result" where
  "example_result cid score =
     \<lparr>content = ''text of '' @ cid, chunk_id = cid, document_id = ''doc'', title = ''Title'',
      chapter_name = ''1'', section_name = ''1.1'', source_path = ''book/ch1.md'',
      similarity_score = score\<rparr>"

definition example_search :: "string \<Rightarrow> int \<Rightarrow> string option \<Rightarrow> rat retrieval_result list" where
  "example_search query top_k selected_text =
     [example_result ''a'' (1 / 2), example_result ''b'' (9 / 10),
      example_result ''c'' (1 / 2), example_result ''d'' (7 / 10)]"

definition spec_windows :: "'a list \<Rightarrow> nat \<Rightarrow> nat \<Rightarrow> 'a list list" where
  \<comment> \<open>the windows in the words of the specification: window \<open>i\<close> starts at offset
      \<open>i * max_tokens\<close> and takes \<open>max_tokens\<close> tokens, and \<open>overlap_tokens\<close> more when tokens
      remain beyond \<open>i * max_tokens + max_tokens\<close>; there is one window for each start
      offset below the number of tokens.\<close>
  "spec_windows tokens max_tokens overlap_tokens =
     map (\<lambda>i. take (max_tokens
                      + (if i * max_tokens + max_tokens < length tokens then overlap_tokens else 0))
                (drop (i * max_tokens) tokens))
         [0..<(length tokens + max_tokens - 1) div max_tokens]"

definition emitted :: "'tok tokenizer \<Rightarrow> 'tok list list \<Rightarrow> string list" where
  \<comment> \<open>each window decoded and normalised, the empty results dropped\<close>
  "emitted tokenizer windows =
     filter (\<lambda>chunk_text. chunk_text \<noteq> []) (map (\<lambda>w. clean_text (decode tokenizer w)) windows)"

definition char_tokenizer :: "char tokenizer" where
  \<comment> \<open>an example tokenizer: one token per character\<close>
  "char_tokenizer = \<lparr>encode = (\<lambda>text. text), decode = (\<lambda>tokens. tokens)\<rparr>"

definition accumulate :: "string list \<Rightarrow> string" where
  \<comment> \<open>the text the loop builds from the sentences it accepts one after the other\<close>
  "accumulate sentences =
     foldl (\<lambda>current_chunk sentence.
              if current_chunk \<noteq> [] then current_chunk @ '' '' @ sentence else sentence)
           [] sentences"

definition accumulated_chunk :: "'tok tokenizer \<Rightarrow> int \<Rightarrow> string list \<Rightarrow> string \<Rightarrow> bool" where
  \<comment> \<open>the normalised form of the text accumulated from some of the sentences, in
      their order, which has at most \<open>max_tokens\<close> tokens before it is normalised\<close>
  "accumulated_chunk tokenizer max_tokens sentences chunk_text =
     (\<exists>accepted. accepted \<noteq> [] \<and> subseq accepted sentences
        \<and> chunk_text = clean_text (accumulate accepted)
        \<and> int (length (encode tokenizer (accumulate accepted))) \<le> max_tokens)"

definition fallback_chunk :: "'tok tokenizer \<Rightarrow> int \<Rightarrow> string list \<Rightarrow> string \<Rightarrow> bool" where
  \<comment> \<open>a chunk of the token windowing, without overlap, of one sentence that alone has
      more than \<open>max_tokens\<close> tokens\<close>
  "fallback_chunk tokenizer max_tokens sentences chunk_text =
     (\<exists>sentence \<in> set sentences.
        int (length (encode tokenizer sentence)) > max_tokens
        \<and> (\<exists>sub_chunks. chunk_text_by_tokens tokenizer sentence max_tokens 0 = Some sub_chunks
              \<and> chunk_text \<in> set sub_chunks))"


definition cl100k_special_tokens :: "string list" where
  \<comment> \<open>the special tokens of tiktoken's \<open>cl100k_base\<close>\<close>
  "cl100k_special_tokens =
     [''<|endoftext|>'', ''<|fim_prefix|>'', ''<|fim_middle|>'', ''<|fim_suffix|>'',
      ''<|endofprompt|>'']"

definition nat_of_digits :: "string \<Rightarrow> nat" where
  "nat_of_digits s = foldl (\<lambda>a c. 10 * a + (of_char c - 48)) 0 s"

definition example_hash :: "int \<Rightarrow> string \<Rightarrow> int" where
  \<comment> \<open>an example of a seeded hash\<close>
  "example_hash seed s = seed + int (length s)"

definition example_uuid5 :: "string \<Rightarrow> string" where
  \<comment> \<open>an example of an injective naming\<close>
  "example_uuid5 name = ''uuid:'' @ name"

section \<open>Facts about the phrase lists\<close>

lemma lower_known_absence_phrases: "\<forall>phrase \<in> set known_absence_phrases. lower phrase = phrase"
  by code_simp

lemma lower_external_indicators: "\<forall>indicator \<in> set external_indicators. lower indicator = indicator"
  by code_simp

lemma external_indicators_nonempty: "\<forall>indicator \<in> set external_indicators. indicator \<noteq> []"
  by code_simp

section \<open>The refusal short-circuit of the context-based validator\<close>

text \<open>
  C4. An answer that contains, case-insensitively, one of the phrases of
  \<open>known_absence_phrases\<close> is valid with confidence 0.9 and no issue, whatever the
  supporting chunks are. \<open>ValidationService.validate_selected_text_response\<close> starts
  with the same test and returns the same verdict.
\<close>

theorem validate_book_based_response_refusal:
  assumes "\<exists>phrase \<in> set known_absence_phrases. contains (lower response) (lower phrase)"
  shows "validate_book_based_response response context_chunks
           = \<lparr>is_valid = True, issues = [], confidence = 9 / 10\<rparr>
         \<and> service_validate_selected_text_response response selected_text
           = \<lparr>is_valid = True, issues = [], confidence = 9 / 10\<rparr>"
proof -
  from assms lower_known_absence_phrases
  have "has_absence_indicator (lower response)"
    unfolding has_absence_indicator_def list_ex_iff by auto
  then show ?thesis
    by (simp add: validate_book_based_response_def service_validate_selected_text_response_def)
qed

theorem validate_book_based_response_refusal_witness:
  "validate_book_based_response ''This information is not available in the book.''
       [\<lparr>content = ''The sky over the harbour was grey all week.''\<rparr>]
     = \<lparr>is_valid = True, issues = [], confidence = 9 / 10\<rparr>"
proof -
  have h: "\<exists>phrase \<in> set known_absence_phrases.
             contains (lower ''This information is not available in the book.'') (lower phrase)"
    by code_simp
  from validate_book_based_response_refusal [OF h] show ?thesis
    by (rule conjunct1)
qed

section \<open>The sparse-context rule of the context-based validator\<close>

text \<open>
  C5, as the code has it. The rule is applied only to a non-empty chunk list, and both
  lengths are taken after \<open>strip()\<close>: for an answer without absence phrase, a non-empty
  chunk list whose joined, trimmed content is shorter than 50 characters, and a trimmed
  answer longer than 100 characters, the verdict is invalid with confidence 0.2, and the
  last issue recorded is the sparse-context one.
\<close>

theorem validate_book_based_response_sparse_context:
  assumes "\<not> has_absence_indicator (lower response)"
    and "context_chunks \<noteq> []"
    and "length (strip (join '' '' (map content context_chunks))) < 50"
    and "length (strip response) > 100"
  shows "is_valid (validate_book_based_response response context_chunks) = False
         \<and> confidence (validate_book_based_response response context_chunks) = 2 / 10
         \<and> last (issues (validate_book_based_response response context_chunks))
             = ''Detailed response provided with minimal context''"
  using assms by (simp add: validate_book_based_response_def Let_def)

theorem validate_book_based_response_sparse_context_witness:
  "is_valid (validate_book_based_response
       ''The harbour was built in 1820 by a guild of merchants who wanted a deeper berth for the grain ships, and it was widened twice before the railway came.''
       [\<lparr>content = ''A harbour.''\<rparr>]) = False
   \<and> confidence (validate_book_based_response
       ''The harbour was built in 1820 by a guild of merchants who wanted a deeper berth for the grain ships, and it was widened twice before the railway came.''
       [\<lparr>content = ''A harbour.''\<rparr>]) = 2 / 10"
proof -
  let ?answer = "''The harbour was built in 1820 by a guild of merchants who wanted a deeper berth for the grain ships, and it was widened twice before the railway came.''"
  let ?chunks = "[\<lparr>content = ''A harbour.''\<rparr>]"
  have h1: "\<not> has_absence_indicator (lower ?answer)" by code_simp
  have h2: "?chunks \<noteq> []" by simp
  have h3: "length (strip (join '' '' (map content ?chunks))) < 50" by code_simp
  have h4: "length (strip ?answer) > 100" by code_simp
  from validate_book_based_response_sparse_context [OF h1 h2 h3 h4]
  show ?thesis by blast
qed

text \<open>
  The claim as stated fails twice: an empty chunk list (combined text of length 0) is
  never flagged, and an answer of more than 100 characters whose trimmed length is at
  most 100 is not flagged either.
\<close>

theorem validate_book_based_response_sparse_context_counterexample:
  "length (join '' '' (map content ([] :: context_chunk list))) < 50
   \<and> length ''The harbour was built in 1820 by a guild of merchants who wanted a deeper berth for the grain ships, and it was widened twice before the railway came.'' > 100
   \<and> validate_book_based_response
       ''The harbour was built in 1820 by a guild of merchants who wanted a deeper berth for the grain ships, and it was widened twice before the railway came.''
       ([] :: context_chunk list)
     = \<lparr>is_valid = True, issues = [], confidence = 1\<rparr>
   \<and> length (''The harbour was built in 1820 by a guild of merchants who wanted a deeper berth for the grain ships'' @ replicate 50 (CHR '' '')) > 100
   \<and> validate_book_based_response
       (''The harbour was built in 1820 by a guild of merchants who wanted a deeper berth for the grain ships'' @ replicate 50 (CHR '' ''))
       [\<lparr>content = ''A harbour.''\<rparr>]
     = \<lparr>is_valid = True, issues = [], confidence = 1\<rparr>"
  by code_simp

section \<open>The selected-text validator of utils/validation.py\<close>

text \<open>
  C6. With a non-empty selected text, an answer that contains, case-insensitively, one
  of the phrases of \<open>external_indicators\<close> is valid with confidence 1.0 and an empty
  error list, whatever the sentence analysis found.
\<close>

theorem validate_selected_text_response_refusal:
  assumes "selected_text \<noteq> []"
    and "\<exists>indicator \<in> set external_indicators. contains (lower response) (lower indicator)"
  shows "validate_selected_text_response response selected_text
           = \<lparr>v_is_valid = True, v_errors = [], v_confidence = 1,
              v_validation_note =
                Some ''Response properly indicates information not available in selected text'',
              v_valid_sentences_count = None, v_invalid_sentences_count = None,
              v_total_sentences = None\<rparr>"
proof -
  from assms(2) lower_external_indicators
  obtain indicator where ind: "indicator \<in> set external_indicators"
    and c: "contains (lower response) indicator"
    by auto
  from ind external_indicators_nonempty have "indicator \<noteq> []" by blast
  with c have "response \<noteq> []"
    by (auto simp: lower_def)
  moreover from ind c
  have "list_ex (\<lambda>indicator. contains (lower response) indicator) external_indicators"
    unfolding list_ex_iff by blast
  ultimately show ?thesis
    using assms(1)
    by (simp add: validate_selected_text_response_def Let_def split: prod.splits)
qed

theorem validate_selected_text_response_refusal_witness:
  "validate_selected_text_response ''I don't know. Paris is lovely in spring.'' ''abcd efgh''
     = \<lparr>v_is_valid = True, v_errors = [], v_confidence = 1,
        v_validation_note =
          Some ''Response properly indicates information not available in selected text'',
        v_valid_sentences_count = None, v_invalid_sentences_count = None,
        v_total_sentences = None\<rparr>"
proof -
  have h1: "''abcd efgh'' \<noteq> []" by simp
  have h2: "\<exists>indicator \<in> set external_indicators.
              contains (lower ''I don't know. Paris is lovely in spring.'') (lower indicator)"
    by code_simp
  show ?thesis
    by (rule validate_selected_text_response_refusal [OF h1 h2])
qed

text \<open>
  C7, as the code has it. The function of utils/validation.py rejects every non-empty
  answer for an empty selected text, with confidence 0.0, one error and no sentence
  analysis. The method of the same name in \<open>ValidationService\<close> does not: for an empty
  selected text it rejects, with confidence 0.1, only an answer without absence phrase
  whose trimmed length exceeds 50, and accepts every other answer.
\<close>

theorem validate_selected_text_response_empty_selection:
  assumes "response \<noteq> []"
  shows "validate_selected_text_response response []
           = \<lparr>v_is_valid = False,
              v_errors = [''Selected text cannot be empty for validation''],
              v_confidence = 0, v_validation_note = None,
              v_valid_sentences_count = None, v_invalid_sentences_count = None,
              v_total_sentences = None\<rparr>
         \<and> service_validate_selected_text_response response []
           = (if has_absence_indicator (lower response)
              then \<lparr>is_valid = True, issues = [], confidence = 9 / 10\<rparr>
              else if length (strip response) > 50
              then \<lparr>is_valid = False,
                    issues = [''Response provided without selected text context''],
                    confidence = 1 / 10\<rparr>
              else \<lparr>is_valid = True, issues = [], confidence = 1\<rparr>)"
  using assms
  by (simp add: validate_selected_text_response_def service_validate_selected_text_response_def
      strip_def)

theorem validate_selected_text_response_empty_selection_witness:
  "validate_selected_text_response ''Hi'' []
     = \<lparr>v_is_valid = False,
        v_errors = [''Selected text cannot be empty for validation''],
        v_confidence = 0, v_validation_note = None,
        v_valid_sentences_count = None, v_invalid_sentences_count = None,
        v_total_sentences = None\<rparr>"
proof -
  have h: "''Hi'' \<noteq> []" by simp
  from validate_selected_text_response_empty_selection [OF h] show ?thesis
    by (rule conjunct1)
qed

theorem validate_selected_text_response_empty_selection_counterexample:
  "''Hi'' \<noteq> []
   \<and> service_validate_selected_text_response ''Hi'' []
       = \<lparr>is_valid = True, issues = [], confidence = 1\<rparr>
   \<and> service_validate_selected_text_response
         ''The harbour was built in 1820 by a guild of merchants.'' []
       = \<lparr>is_valid = False,
          issues = [''Response provided without selected text context''],
          confidence = 1 / 10\<rparr>"
  by code_simp

section \<open>Verdict consistency\<close>

lemma generic_step_consistent:
  "is_valid vr = (issues vr = [])
   \<Longrightarrow> is_valid (generic_step response_lower indicator vr)
       = (issues (generic_step response_lower indicator vr) = [])"
  by (simp add: generic_step_def)

lemma fold_generic_step_consistent:
  "is_valid vr = (issues vr = [])
   \<Longrightarrow> is_valid (fold (generic_step response_lower) indicators vr)
       = (issues (fold (generic_step response_lower) indicators vr) = [])"
proof (induction indicators arbitrary: vr)
  case Nil
  then show ?case by simp
next
  case (Cons indicator indicators)
  from Cons.prems have "is_valid (generic_step response_lower indicator vr)
      = (issues (generic_step response_lower indicator vr) = [])"
    by (rule generic_step_consistent)
  then show ?case
    using Cons.IH by simp
qed

text \<open>
  C10. In every verdict of \<open>validate_book_based_response\<close> and of the
  \<open>validate_selected_text_response\<close> of utils/validation.py, \<open>is_valid\<close> is true exactly
  when the list of issues (errors) is empty.
\<close>

theorem verdict_consistency:
  "is_valid (validate_book_based_response response context_chunks)
     = (issues (validate_book_based_response response context_chunks) = [])
   \<and> v_is_valid (validate_selected_text_response response selected_text)
     = (v_errors (validate_selected_text_response response selected_text) = [])"
proof
  let ?init = "\<lparr>is_valid = True, issues = [], confidence = 1\<rparr>"
  have "is_valid ?init = (issues ?init = [])" by simp
  then have "is_valid (fold (generic_step (lower response)) generic_indicators ?init)
      = (issues (fold (generic_step (lower response)) generic_indicators ?init) = [])"
    by (rule fold_generic_step_consistent)
  then show "is_valid (validate_book_based_response response context_chunks)
     = (issues (validate_book_based_response response context_chunks) = [])"
    by (simp add: validate_book_based_response_def Let_def)
next
  show "v_is_valid (validate_selected_text_response response selected_text)
     = (v_errors (validate_selected_text_response response selected_text) = [])"
    by (simp add: validate_selected_text_response_def Let_def split: prod.splits)
qed

theorem verdict_consistency_witness:
  "is_valid (validate_book_based_response ''Ships usually dock at dawn.'' [\<lparr>content = ''A harbour.''\<rparr>])
     = False
   \<and> issues (validate_book_based_response ''Ships usually dock at dawn.'' [\<lparr>content = ''A harbour.''\<rparr>])
     = [''Response contains generic knowledge indicator: usually.*'']
   \<and> v_is_valid (validate_selected_text_response ''The sky is blue.'' ''Grass grows in the meadow'')
     = False"
proof -
  have i: "issues (validate_book_based_response ''Ships usually dock at dawn.'' [\<lparr>content = ''A harbour.''\<rparr>])
     = [''Response contains generic knowledge indicator: usually.*'']"
    by code_simp
  have e: "v_errors (validate_selected_text_response ''The sky is blue.'' ''Grass grows in the meadow'')
     = [invalid_fraction_error 1 1]"
    by code_simp
  note c1 = verdict_consistency [where response = "''Ships usually dock at dawn.''"
      and context_chunks = "[\<lparr>content = ''A harbour.''\<rparr>]", THEN conjunct1]
  note c2 = verdict_consistency [where response = "''The sky is blue.''"
      and selected_text = "''Grass grows in the meadow''", THEN conjunct2]
  from c1 c2 i e show ?thesis by simp
qed

section \<open>Sentence-level verification\<close>

lemma meaningful_words_Nil: "meaningful_words [] = {}"
  by (simp add: meaningful_words_def split_def)

lemma fold_sentence_step:
  "fold (sentence_step (lower selected_text)) sentences (invalid_sentences, valid_sentences)
     = (invalid_sentences @ filter (spec_invalid_sentence selected_text) sentences,
        valid_sentences @ filter (spec_valid_sentence selected_text) sentences)"
proof (induction sentences arbitrary: invalid_sentences valid_sentences)
  case Nil
  then show ?case by simp
next
  case (Cons sentence sentences)
  have step: "sentence_step (lower selected_text) sentence (invalid_sentences, valid_sentences)
      = (invalid_sentences @ filter (spec_invalid_sentence selected_text) [sentence],
         valid_sentences @ filter (spec_valid_sentence selected_text) [sentence])"
    by (auto simp: sentence_step_def Let_def spec_invalid_sentence_def spec_valid_sentence_def
        spec_overlap_ratio_def spec_sentence_words_def meaningful_words_Nil)
  show ?case
    by (simp only: fold_Cons_rev step Cons.IH comp_apply fold.simps) simp
qed

text \<open>
  C1, as the code has it. For a non-empty answer that holds none of the refusal phrases
  of \<open>external_indicators\<close> and a non-empty selected text, the verdict is the one of the
  sentence analysis: the sentences are the trimmed, non-blank pieces between runs of
  \<open>.\<close>, \<open>!\<close>, \<open>?\<close>; a sentence with a word longer than 3 characters is invalid when its
  overlap ratio is below 0.3 and valid otherwise; the verdict is invalid, with one error
  citing the fraction, exactly when invalid sentences / sentences > 0.5; the confidence
  is min(1, valid sentences / sentences), and 0 when there is no sentence.
\<close>

theorem validate_selected_text_response_sentences:
  assumes "response \<noteq> []"
    and "selected_text \<noteq> []"
    and "\<not> list_ex (\<lambda>indicator. contains (lower response) indicator) external_indicators"
  shows "validate_selected_text_response response selected_text
           = spec_sentence_verdict response selected_text"
  using assms
  by (simp add: validate_selected_text_response_def spec_sentence_verdict_def Let_def
      fold_sentence_step)

theorem validate_selected_text_response_sentences_witness:
  "validate_selected_text_response ''The sky is blue.'' ''Grass grows in the meadow''
     = \<lparr>v_is_valid = False,
        v_errors = [''Response contains information not found in selected text. 1/1 sentences appear to be outside the selected text context.''],
        v_confidence = 0, v_validation_note = None,
        v_valid_sentences_count = Some 0, v_invalid_sentences_count = Some 1,
        v_total_sentences = Some 1\<rparr>"
proof -
  have h1: "''The sky is blue.'' \<noteq> []" by simp
  have h2: "''Grass grows in the meadow'' \<noteq> []" by simp
  have h3: "\<not> list_ex (\<lambda>indicator. contains (lower ''The sky is blue.'') indicator)
              external_indicators"
    by code_simp
  have "spec_sentence_verdict ''The sky is blue.'' ''Grass grows in the meadow''
     = \<lparr>v_is_valid = False,
        v_errors = [''Response contains information not found in selected text. 1/1 sentences appear to be outside the selected text context.''],
        v_confidence = 0, v_validation_note = None,
        v_valid_sentences_count = Some 0, v_invalid_sentences_count = Some 1,
        v_total_sentences = Some 1\<rparr>"
    by code_simp
  with validate_selected_text_response_sentences [OF h1 h2 h3] show ?thesis
    by simp
qed

text \<open>
  The claim as stated fails on a refusal: the only sentence of the answer is invalid
  (1/1 > 0.5), and the verdict is valid with no error.
\<close>

theorem validate_selected_text_response_sentences_counterexample:
  "''abcd efgh'' \<noteq> []
   \<and> response_sentences_of ''I don't know.'' = [''I don't know'']
   \<and> filter (spec_invalid_sentence ''abcd efgh'') (response_sentences_of ''I don't know.'')
       = [''I don't know'']
   \<and> v_is_valid (validate_selected_text_response ''I don't know.'' ''abcd efgh'') = True
   \<and> v_errors (validate_selected_text_response ''I don't know.'' ''abcd efgh'') = []
   \<and> v_confidence (validate_selected_text_response ''I don't know.'' ''abcd efgh'') = 1"
  by code_simp

section \<open>Ranking\<close>

lemma mset_insort_reverse: "mset (insort_reverse key x ys) = add_mset x (mset ys)"
  by (induction ys) simp_all

lemma set_insort_reverse: "set (insort_reverse key x ys) = insert x (set ys)"
  by (induction ys) auto

lemma descending_insort_reverse:
  "sorted_wrt (\<lambda>a b. key b \<le> key a) ys
   \<Longrightarrow> sorted_wrt (\<lambda>a b. key b \<le> key a) (insort_reverse key x ys)"
  by (induction ys) (auto simp: set_insort_reverse)

lemma filter_insort_reverse:
  "filter (\<lambda>y. key y = k) (insort_reverse key x ys)
     = (if key x = k then x # filter (\<lambda>y. key y = k) ys else filter (\<lambda>y. key y = k) ys)"
  by (induction ys) auto

lemma mset_sort_reverse: "mset (sort_reverse key xs) = mset xs"
  by (induction xs) (simp_all add: sort_reverse_def mset_insort_reverse)

lemma descending_sort_reverse: "sorted_wrt (\<lambda>a b. key b \<le> key a) (sort_reverse key xs)"
  by (induction xs) (simp_all add: sort_reverse_def descending_insort_reverse)

lemma stable_sort_reverse:
  "filter (\<lambda>y. key y = k) (sort_reverse key xs) = filter (\<lambda>y. key y = k) xs"
  by (induction xs) (simp_all add: sort_reverse_def filter_insort_reverse)

lemma composite_score_set_composite_score:
  "composite_score (set_composite_score chunk) = similarity_score chunk"
  "similarity_score (set_composite_score chunk) = similarity_score chunk"
  by (simp_all add: set_composite_score_def retrieval_result.defs ranked_result.defs)

text \<open>
  C8. Whatever list the search returns, every ranked element carries
  \<open>composite_score = similarity_score\<close>; the ranked list holds the same elements, in
  non-increasing order of \<open>composite_score\<close>; and for every score the elements with that
  score appear in the order the search returned them.
\<close>

theorem retrieve_and_rank_stable:
  fixes search_chunks :: "string \<Rightarrow> int \<Rightarrow> string option \<Rightarrow> ('s::linorder) retrieval_result list"
  shows "(\<forall>chunk \<in> set (retrieve_and_rank search_chunks query top_k).
            composite_score chunk = similarity_score chunk)
         \<and> mset (retrieve_and_rank search_chunks query top_k)
             = mset (map set_composite_score (search_chunks query top_k None))
         \<and> sorted_wrt (\<lambda>a b. composite_score b \<le> composite_score a)
             (retrieve_and_rank search_chunks query top_k)
         \<and> (\<forall>k. filter (\<lambda>chunk. composite_score chunk = k)
                   (retrieve_and_rank search_chunks query top_k)
                 = map set_composite_score
                     (filter (\<lambda>chunk. similarity_score chunk = k)
                        (search_chunks query top_k None)))"
proof -
  let ?found = "search_chunks query top_k None"
  let ?scored = "map set_composite_score ?found"
  have rank: "retrieve_and_rank search_chunks query top_k = sort_reverse composite_score ?scored"
    by (simp add: retrieve_and_rank_def retrieve_relevant_chunks_def)
  have perm: "mset (sort_reverse composite_score ?scored) = mset ?scored"
    by (rule mset_sort_reverse)
  then have "set (sort_reverse composite_score ?scored) = set ?scored"
    by (rule mset_eq_setD)
  then have scores: "\<forall>chunk \<in> set (sort_reverse composite_score ?scored).
      composite_score chunk = similarity_score chunk"
    by (auto simp: composite_score_set_composite_score)
  have stable: "filter (\<lambda>chunk. composite_score chunk = k) (sort_reverse composite_score ?scored)
      = map set_composite_score (filter (\<lambda>chunk. similarity_score chunk = k) ?found)" for k
    by (simp add: stable_sort_reverse filter_map comp_def composite_score_set_composite_score)
  from scores perm descending_sort_reverse [of composite_score ?scored] stable
  show ?thesis
    unfolding rank by blast
qed

theorem retrieve_and_rank_stable_witness:
  "map chunk_id (retrieve_and_rank example_search ''harbour'' 5) = [''b'', ''d'', ''a'', ''c'']
   \<and> filter (\<lambda>chunk. composite_score chunk = 1 / 2) (retrieve_and_rank example_search ''harbour'' 5)
       = map set_composite_score [example_result ''a'' (1 / 2), example_result ''c'' (1 / 2)]"
proof -
  have ids: "map chunk_id (retrieve_and_rank example_search ''harbour'' 5) = [''b'', ''d'', ''a'', ''c'']"
    by code_simp
  have sel: "filter (\<lambda>chunk. similarity_score chunk = 1 / 2) (example_search ''harbour'' 5 None)
      = [example_result ''a'' (1 / 2), example_result ''c'' (1 / 2)]"
    by code_simp
  from retrieve_and_rank_stable [of example_search "''harbour''" 5]
  have "\<forall>k. filter (\<lambda>chunk. composite_score chunk = k)
              (retrieve_and_rank example_search ''harbour'' 5)
            = map set_composite_score
                (filter (\<lambda>chunk. similarity_score chunk = k) (example_search ''harbour'' 5 None))"
    by blast
  then have "filter (\<lambda>chunk. composite_score chunk = 1 / 2)
              (retrieve_and_rank example_search ''harbour'' 5)
            = map set_composite_score
                (filter (\<lambda>chunk. similarity_score chunk = 1 / 2)
                   (example_search ''harbour'' 5 None))"
    by blast
  then have "filter (\<lambda>chunk. composite_score chunk = 1 / 2)
              (retrieve_and_rank example_search ''harbour'' 5)
            = map set_composite_score [example_result ''a'' (1 / 2), example_result ''c'' (1 / 2)]"
    unfolding sel .
  with ids show ?thesis by blast
qed

section \<open>Token-mode chunking\<close>

lemma slice_window:
  assumes "0 \<le> a" and "a < int (length xs)" and "a \<le> b"
  shows "slice xs a b = take (nat (b - a)) (drop (nat a) xs)"
proof (cases "b \<le> int (length xs)")
  case True
  with assms show ?thesis
    by (simp add: slice_def Let_def min_def)
next
  case False
  with assms have "slice xs a b = take (nat (int (length xs) - a)) (drop (nat a) xs)"
    by (simp add: slice_def Let_def min_def)
  also from False assms have "\<dots> = drop (nat a) xs"
    by simp
  also from False assms have "\<dots> = take (nat (b - a)) (drop (nat a) xs)"
    by simp
  finally show ?thesis .
qed

lemma slice_nat:
  assumes "a < length xs"
  shows "slice xs (int a) (int a + int c) = take c (drop a xs)"
  using slice_window [of "int a" xs "int a + int c"] assms by simp

lemma window_count_iff:
  fixes k m n :: nat
  assumes "0 < m"
  shows "(k < (n + m - 1) div m) = (k * m < n)"
proof -
  have "(k < (n + m - 1) div m) = (Suc k \<le> (n + m - 1) div m)"
    by auto
  also from assms have "\<dots> = (Suc k * m \<le> n + m - 1)"
    by (simp only: less_eq_div_iff_mult_less_eq)
  also from assms have "\<dots> = (k * m < n)"
    by auto
  finally show ?thesis .
qed

lemma emitted_append: "emitted tokenizer (ws @ vs) = emitted tokenizer ws @ emitted tokenizer vs"
  by (simp add: emitted_def)

lemma emitted_single:
  "emitted tokenizer [w]
     = (if clean_text (decode tokenizer w) \<noteq> [] then [clean_text (decode tokenizer w)] else [])"
  by (simp add: emitted_def)

lemma token_loop_windows:
  fixes tokens :: "'tok list" and m ov :: nat
  assumes m: "0 < m"
  shows "token_loop tokenizer tokens (int m) (int ov) (int (k * m)) chunks
           = Some (chunks @ emitted tokenizer
                (map (\<lambda>i. take (m + (if i * m + m < length tokens then ov else 0))
                             (drop (i * m) tokens))
                     [k..<(length tokens + m - 1) div m]))"
proof (induction "(length tokens + m - 1) div m - k" arbitrary: k chunks)
  case 0
  then have "\<not> k < (length tokens + m - 1) div m" by simp
  with window_count_iff [OF m, of k "length tokens"] have "\<not> k * m < length tokens"
    by simp
  then have "\<not> int (k * m) < int (length tokens)"
    by (simp only: of_nat_less_iff not_False_eq_True)
  then have "token_loop tokenizer tokens (int m) (int ov) (int (k * m)) chunks = Some chunks"
    by (subst token_loop.simps) (simp only: if_False)
  with 0 show ?case
    by (simp add: emitted_def)
next
  case (Suc d)
  let ?n = "length tokens"
  let ?W = "\<lambda>i. take (m + (if i * m + m < ?n then ov else 0)) (drop (i * m) tokens)"
  let ?cnt = "(?n + m - 1) div m"
  from Suc.hyps(2) have k: "k < ?cnt" by simp
  with window_count_iff [OF m, of k ?n] have start: "k * m < ?n"
    by simp
  from start have si: "int (k * m) < int ?n"
    by (simp only: of_nat_less_iff)
  have sl: "slice tokens (int (k * m))
      (if int (k * m) + int m < int ?n then int (k * m) + int m + int ov else int (k * m) + int m)
      = ?W k"
  proof (cases "k * m + m < ?n")
    case True
    then have c: "int (k * m) + int m < int ?n"
      by (simp only: of_nat_add [symmetric] of_nat_less_iff)
    have "slice tokens (int (k * m)) (int (k * m) + int (m + ov)) = take (m + ov) (drop (k * m) tokens)"
      by (rule slice_nat [OF start])
    then have "slice tokens (int (k * m)) (int (k * m) + int m + int ov)
        = take (m + ov) (drop (k * m) tokens)"
      by (simp only: of_nat_add add.assoc)
    with c True show ?thesis
      by (simp only: if_True)
  next
    case False
    then have c: "\<not> int (k * m) + int m < int ?n"
      by (simp only: of_nat_add [symmetric] of_nat_less_iff not_False_eq_True)
    have "slice tokens (int (k * m)) (int (k * m) + int m) = take m (drop (k * m) tokens)"
      by (rule slice_nat [OF start])
    with c False show ?thesis
      by (simp only: if_False add_0_right)
  qed
  from Suc.hyps(2) have d: "d = ?cnt - Suc k" by simp
  have next_start: "int (k * m) + int m = int (Suc k * m)" by simp
  have emit: "(if clean_text (decode tokenizer (?W k)) \<noteq> []
       then chunks @ [clean_text (decode tokenizer (?W k))] else chunks)
      = chunks @ emitted tokenizer [?W k]"
    by (simp add: emitted_single)
  have "token_loop tokenizer tokens (int m) (int ov) (int (k * m)) chunks
      = token_loop tokenizer tokens (int m) (int ov) (int (Suc k * m))
          (chunks @ emitted tokenizer [?W k])"
    unfolding emit [symmetric] next_start [symmetric]
    using si by (subst token_loop.simps) (simp only: if_True Let_def sl)
  also have "\<dots> = Some ((chunks @ emitted tokenizer [?W k])
      @ emitted tokenizer (map ?W [Suc k..<?cnt]))"
    by (rule Suc.hyps(1) [OF d])
  also from k have "\<dots> = Some (chunks @ emitted tokenizer (map ?W [k..<?cnt]))"
    by (simp add: upt_conv_Cons emitted_append [symmetric] del: upt_Suc)
  finally show ?case .
qed

text \<open>
  C2. For \<open>max_tokens > 0\<close> and a number \<open>overlap_tokens \<ge> 0\<close> of additional tokens, the
  loop ends, and the chunks are the windows of the specification, each decoded,
  normalised and dropped when empty: window \<open>i\<close> starts at token offset \<open>i * max_tokens\<close>,
  takes \<open>max_tokens\<close> tokens, and is extended by \<open>overlap_tokens\<close> tokens exactly when
  tokens remain beyond it. A blank text is answered with no chunk before any window
  is cut; this agrees with the windows when each of them decodes to blanks.
\<close>

theorem chunk_text_by_tokens_windows:
  assumes "0 < max_tokens" and "0 \<le> overlap_tokens"
    and "strip text \<noteq> []
         \<or> emitted tokenizer
              (spec_windows (encode tokenizer text) (nat max_tokens) (nat overlap_tokens)) = []"
  shows "chunk_text_by_tokens tokenizer text max_tokens overlap_tokens
           = Some (emitted tokenizer
               (spec_windows (encode tokenizer text) (nat max_tokens) (nat overlap_tokens)))"
proof (cases "strip text = []")
  case True
  with assms(3) show ?thesis
    by (simp add: chunk_text_by_tokens_def)
next
  case False
  from assms(1) have m: "0 < nat max_tokens" by simp
  from token_loop_windows [OF m, of tokenizer "encode tokenizer text" "nat overlap_tokens" 0 "[]"]
    assms(1,2) False
  show ?thesis
    by (simp add: chunk_text_by_tokens_def spec_windows_def)
qed

theorem chunk_text_by_tokens_windows_witness:
  "spec_windows (encode char_tokenizer ''abcdefghij'') 4 2 = [''abcdef'', ''efghij'', ''ij'']
   \<and> chunk_text_by_tokens char_tokenizer ''abcdefghij'' 4 2 = Some [''abcdef'', ''efghij'', ''ij'']"
proof -
  have h1: "(0 :: int) < 4" by simp
  have h2: "(0 :: int) \<le> 2" by simp
  have "strip ''abcdefghij'' \<noteq> []" by code_simp
  then have h3: "strip ''abcdefghij'' \<noteq> []
      \<or> emitted char_tokenizer (spec_windows (encode char_tokenizer ''abcdefghij'') (nat 4) (nat 2)) = []"
    by (rule disjI1)
  have w: "spec_windows (encode char_tokenizer ''abcdefghij'') 4 2 = [''abcdef'', ''efghij'', ''ij'']"
    by code_simp
  have e: "emitted char_tokenizer [''abcdef'', ''efghij'', ''ij''] = [''abcdef'', ''efghij'', ''ij'']"
    by code_simp
  from chunk_text_by_tokens_windows [OF h1 h2 h3] w e show ?thesis
    by simp
qed

section \<open>Sentence-mode chunking\<close>

lemma chunk_text_by_tokens_returns:
  assumes "0 < max_tokens" and "0 \<le> overlap_tokens"
  shows "\<exists>chunks. chunk_text_by_tokens tokenizer text max_tokens overlap_tokens = Some chunks"
proof -
  from assms(1) have m: "0 < nat max_tokens" by simp
  from token_loop_windows [OF m, of tokenizer "encode tokenizer text" "nat overlap_tokens" 0 "[]"]
    assms
  show ?thesis
    by (simp add: chunk_text_by_tokens_def)
qed

lemma tokenizer_encode_Inr:
  "tokenizer_encode tokenizer special_tokens text = Inr tokens \<Longrightarrow> tokens = encode tokenizer text"
  by (simp add: tokenizer_encode_def split: if_splits)

lemma py_error_ValueError: "(e :: py_error) = ValueError"
  by (cases e) simp

lemma accumulate_Nil: "accumulate [] = []"
  by (simp add: accumulate_def)

lemma accumulate_snoc:
  "accumulate (accepted @ [sentence])
     = (if accumulate accepted \<noteq> [] then accumulate accepted @ '' '' @ sentence else sentence)"
  by (simp add: accumulate_def)

lemma strip_nonempty: "strip s \<noteq> [] \<Longrightarrow> s \<noteq> []"
  by (auto simp: strip_def)

lemma sentence_loop_chunks:
  assumes "0 < max_tokens"
  shows "all_sentences = seen @ sentences
    \<Longrightarrow> \<forall>c \<in> set chunks. accumulated_chunk tokenizer max_tokens all_sentences c
                          \<or> fallback_chunk tokenizer max_tokens all_sentences c
    \<Longrightarrow> subseq accepted seen
    \<Longrightarrow> current_chunk = accumulate accepted
    \<Longrightarrow> current_chunk = [] \<or> int (length (encode tokenizer current_chunk)) \<le> max_tokens
    \<Longrightarrow> sentence_loop tokenizer special_tokens max_tokens sentences chunks current_chunk
          = Some (Inl ValueError)
        \<or> (\<exists>chunks' accepted'.
              sentence_loop tokenizer special_tokens max_tokens sentences chunks current_chunk
                = Some (Inr (chunks', accumulate accepted'))
              \<and> (\<forall>c \<in> set chunks'. accumulated_chunk tokenizer max_tokens all_sentences c
                                     \<or> fallback_chunk tokenizer max_tokens all_sentences c)
              \<and> subseq accepted' all_sentences
              \<and> (accumulate accepted' = []
                  \<or> int (length (encode tokenizer (accumulate accepted'))) \<le> max_tokens))"
proof (induction sentences arbitrary: seen chunks accepted current_chunk)
  case Nil
  then show ?case by auto
next
  case (Cons sentence sentences)
  let ?P = "\<lambda>c. accumulated_chunk tokenizer max_tokens all_sentences c
                 \<or> fallback_chunk tokenizer max_tokens all_sentences c"
  let ?test = "if current_chunk \<noteq> [] then current_chunk @ '' '' @ sentence else sentence"
  let ?flushed = "if strip current_chunk \<noteq> [] then chunks @ [clean_text current_chunk] else chunks"
  let ?loop = "sentence_loop tokenizer special_tokens max_tokens"
  from Cons.prems(1) have split: "all_sentences = (seen @ [sentence]) @ sentences"
    by simp
  from Cons.prems(1) have mem: "sentence \<in> set all_sentences"
    by simp
  from Cons.prems(3) have sub_seen: "subseq accepted (seen @ [sentence])"
    by (rule list_emb_prefix)
  from Cons.prems(3) have sub_snoc: "subseq (accepted @ [sentence]) (seen @ [sentence])"
    by (rule list_emb_append_mono) simp
  have sub_one: "subseq [sentence] (seen @ [sentence])"
    by (rule list_emb_append2) simp
  from Cons.prems(4) have test: "?test = accumulate (accepted @ [sentence])"
    by (simp add: accumulate_snoc)
  have one: "sentence = accumulate [sentence]"
    by (simp add: accumulate_def)
  have flushed: "\<forall>c \<in> set ?flushed. ?P c"
  proof (cases "strip current_chunk \<noteq> []")
    case True
    then have ne: "current_chunk \<noteq> []"
      by (rule strip_nonempty)
    with Cons.prems(5) have le: "int (length (encode tokenizer current_chunk)) \<le> max_tokens"
      by simp
    from ne Cons.prems(4) have "accepted \<noteq> []"
      by (auto simp: accumulate_Nil)
    moreover from Cons.prems(3) have "subseq accepted all_sentences"
      unfolding Cons.prems(1) by (rule list_emb_prefix)
    ultimately have "accumulated_chunk tokenizer max_tokens all_sentences (clean_text current_chunk)"
      unfolding accumulated_chunk_def using le Cons.prems(4) by blast
    with True Cons.prems(2) show ?thesis by simp
  next
    case False
    with Cons.prems(2) show ?thesis by simp
  qed
  show ?case
  proof (cases "tokenizer_encode tokenizer special_tokens ?test")
    case (Inl e)
    then have "?loop (sentence # sentences) chunks current_chunk = Some (Inl e)"
      by (simp add: Let_def)
    then show ?thesis
      using py_error_ValueError [of e] by simp
  next
    case (Inr test_tokens)
    then have tt: "test_tokens = encode tokenizer ?test"
      by (rule tokenizer_encode_Inr)
    show ?thesis
    proof (cases "int (length (encode tokenizer ?test)) \<le> max_tokens")
      case True
      then have bounded: "?test = [] \<or> int (length (encode tokenizer ?test)) \<le> max_tokens"
        by (rule disjI2)
      from Inr tt True have "?loop (sentence # sentences) chunks current_chunk
          = ?loop sentences chunks ?test"
        by (simp add: Let_def)
      with Cons.IH [OF split Cons.prems(2) sub_snoc test bounded] show ?thesis
        by simp
    next
      case over: False
      show ?thesis
      proof (cases "tokenizer_encode tokenizer special_tokens sentence")
        case (Inl e)
        with Inr tt over have "?loop (sentence # sentences) chunks current_chunk = Some (Inl e)"
          by (simp add: Let_def)
        then show ?thesis
          using py_error_ValueError [of e] by simp
      next
        case sent: (Inr sentence_tokens)
        then have st: "sentence_tokens = encode tokenizer sentence"
          by (rule tokenizer_encode_Inr)
        show ?thesis
        proof (cases "int (length (encode tokenizer sentence)) > max_tokens")
          case True
          from chunk_text_by_tokens_returns [OF assms, of 0 tokenizer sentence]
          obtain sub_chunks
            where sub: "chunk_text_by_tokens tokenizer sentence max_tokens 0 = Some sub_chunks"
            by auto
          from True mem sub
          have "\<forall>c \<in> set sub_chunks. fallback_chunk tokenizer max_tokens all_sentences c"
            unfolding fallback_chunk_def by blast
          with flushed have all: "\<forall>c \<in> set (?flushed @ sub_chunks). ?P c"
            by auto
          from Inr tt over sent st True sub
          have "?loop (sentence # sentences) chunks current_chunk
              = ?loop sentences (?flushed @ sub_chunks) current_chunk"
            by (simp add: Let_def)
          with Cons.IH [OF split all sub_seen Cons.prems(4) Cons.prems(5)] show ?thesis
            by simp
        next
          case False
          then have bounded: "sentence = [] \<or> int (length (encode tokenizer sentence)) \<le> max_tokens"
            by simp
          from Inr tt over sent st False
          have "?loop (sentence # sentences) chunks current_chunk
              = ?loop sentences ?flushed sentence"
            by (simp add: Let_def)
          with Cons.IH [OF split flushed sub_one one bounded] show ?thesis
            by simp
        qed
      qed
    qed
  qed
qed

text \<open>
  What the code does guarantee. For \<open>max_tokens > 0\<close> sentence-mode chunking ends: it
  raises \<open>ValueError\<close>, or it returns chunks each of which is the normalised form
  (\<open>clean_text\<close>) of a text accumulated from sentences of the input, of at most
  \<open>max_tokens\<close> tokens before it is normalised, or a chunk of the token-windowing fallback
  applied to one sentence that alone exceeds \<open>max_tokens\<close>.
\<close>

lemma chunk_text_by_sentences_chunks:
  assumes "0 < max_tokens"
  shows "chunk_text_by_sentences tokenizer special_tokens text max_tokens = Some (Inl ValueError)
         \<or> (\<exists>chunks. chunk_text_by_sentences tokenizer special_tokens text max_tokens
                        = Some (Inr chunks)
               \<and> (\<forall>c \<in> set chunks.
                     accumulated_chunk tokenizer max_tokens (re_split_sentence_ends [] text) c
                     \<or> fallback_chunk tokenizer max_tokens (re_split_sentence_ends [] text) c))"
proof (cases "strip text = []")
  case True
  then show ?thesis
    by (simp add: chunk_text_by_sentences_def)
next
  case False
  let ?sentences = "re_split_sentence_ends [] text"
  let ?P = "\<lambda>c. accumulated_chunk tokenizer max_tokens ?sentences c
                 \<or> fallback_chunk tokenizer max_tokens ?sentences c"
  let ?loop = "sentence_loop tokenizer special_tokens max_tokens ?sentences [] []"
  have "?loop = Some (Inl ValueError)
      \<or> (\<exists>chunks' accepted'.
            ?loop = Some (Inr (chunks', accumulate accepted'))
            \<and> (\<forall>c \<in> set chunks'. ?P c)
            \<and> subseq accepted' ?sentences
            \<and> (accumulate accepted' = []
                \<or> int (length (encode tokenizer (accumulate accepted'))) \<le> max_tokens))"
    by (rule sentence_loop_chunks [OF assms, where seen = "[]" and accepted = "[]"])
       (simp_all add: accumulate_Nil)
  then show ?thesis
  proof
    assume "?loop = Some (Inl ValueError)"
    with False show ?thesis
      by (simp add: chunk_text_by_sentences_def)
  next
    assume "\<exists>chunks' accepted'.
            ?loop = Some (Inr (chunks', accumulate accepted'))
            \<and> (\<forall>c \<in> set chunks'. ?P c)
            \<and> subseq accepted' ?sentences
            \<and> (accumulate accepted' = []
                \<or> int (length (encode tokenizer (accumulate accepted'))) \<le> max_tokens)"
    then obtain chunks' accepted'
      where loop: "?loop = Some (Inr (chunks', accumulate accepted'))"
        and chunks': "\<forall>c \<in> set chunks'. ?P c"
        and sub: "subseq accepted' ?sentences"
        and cur: "accumulate accepted' = []
                  \<or> int (length (encode tokenizer (accumulate accepted'))) \<le> max_tokens"
      by blast
    let ?current = "accumulate accepted'"
    let ?result = "if strip ?current \<noteq> [] then chunks' @ [clean_text ?current] else chunks'"
    from False loop
    have res: "chunk_text_by_sentences tokenizer special_tokens text max_tokens = Some (Inr ?result)"
      by (simp add: chunk_text_by_sentences_def)
    have "\<forall>c \<in> set ?result. ?P c"
    proof (cases "strip ?current \<noteq> []")
      case True
      then have ne: "?current \<noteq> []"
        by (rule strip_nonempty)
      then have "accepted' \<noteq> []"
        by (auto simp: accumulate_Nil)
      with ne cur sub have "accumulated_chunk tokenizer max_tokens ?sentences (clean_text ?current)"
        unfolding accumulated_chunk_def by blast
      with True chunks' show ?thesis by simp
    next
      case False
      with chunks' show ?thesis by simp
    qed
    with res show ?thesis by blast
  qed
qed

lemma chunk_text_by_sentences_example:
  "chunk_text_by_sentences char_tokenizer cl100k_special_tokens ''abc. de. fghijklmnop. q. r'' 6
     = Some (Inr [''abc de'', ''fghijk'', ''lmnop'', ''abc de'', ''q r''])"
  by code_simp

lemma chunk_text_by_sentences_raises:
  "chunk_text_by_sentences char_tokenizer cl100k_special_tokens ''The end <|endoftext|> of it'' 6
     = Some (Inl ValueError)"
  by code_simp


section \<open>Chunk identity\<close>

lemma of_char_digit_char: "d < 10 \<Longrightarrow> (of_char (digit_char d) :: nat) = 48 + d"
  by (simp add: digit_char_def)

lemma nat_of_digits_str_nat: "nat_of_digits (str_nat n) = n"
proof (induction n rule: str_nat.induct)
  case (1 n)
  show ?case
  proof (cases "n < 10")
    case True
    then show ?thesis
      by (subst str_nat.simps) (simp add: nat_of_digits_def of_char_digit_char)
  next
    case False
    with 1 have "nat_of_digits (str_nat (n div 10)) = n div 10" by simp
    with False show ?thesis
      by (subst str_nat.simps) (simp add: nat_of_digits_def of_char_digit_char)
  qed
qed

lemma str_nat_inj: "str_nat a = str_nat b \<Longrightarrow> a = b"
  by (metis nat_of_digits_str_nat)

lemma str_nat_no_minus: "CHR ''-'' \<notin> set (str_nat n)"
proof (induction n rule: str_nat.induct)
  case (1 n)
  have digit: "d < 10 \<Longrightarrow> digit_char d \<noteq> CHR ''-''" for d
  proof
    assume "d < 10" and "digit_char d = CHR ''-''"
    then have "(of_char (digit_char d) :: nat) = of_char (CHR ''-'')" by simp
    with \<open>d < 10\<close> show False
      by (simp add: of_char_digit_char)
  qed
  show ?case
  proof (cases "n < 10")
    case True
    then show ?thesis
      by (subst str_nat.simps) (simp add: digit [THEN not_sym])
  next
    case False
    with 1 have "CHR ''-'' \<notin> set (str_nat (n div 10))" by simp
    with False show ?thesis
      by (subst str_nat.simps) (simp add: digit [THEN not_sym])
  qed
qed

lemma str_int_inj:
  assumes "str_int i = str_int j"
  shows "i = j"
proof -
  have neg: "str_int a \<noteq> str_int b" if "a < 0" and "\<not> b < 0" for a b
  proof
    assume "str_int a = str_int b"
    with that have "CHR ''-'' # str_nat (nat (- a)) = str_nat (nat b)"
      by (simp add: str_int_def)
    then have "CHR ''-'' \<in> set (str_nat (nat b))"
      by (metis list.set_intros(1))
    with str_nat_no_minus show False by blast
  qed
  consider "i < 0" "j < 0" | "i < 0" "\<not> j < 0" | "\<not> i < 0" "j < 0" | "\<not> i < 0" "\<not> j < 0"
    by blast
  then show ?thesis
  proof cases
    case 1
    with assms have "str_nat (nat (- i)) = str_nat (nat (- j))"
      by (simp add: str_int_def)
    then have "nat (- i) = nat (- j)" by (rule str_nat_inj)
    with 1 show ?thesis by simp
  next
    case 2
    with neg assms show ?thesis by blast
  next
    case 3
    with neg [of j i] assms show ?thesis by simp
  next
    case 4
    with assms have "str_nat (nat i) = str_nat (nat j)"
      by (simp add: str_int_def)
    then have "nat i = nat j" by (rule str_nat_inj)
    with 4 show ?thesis by simp
  qed
qed

lemma chunk_name_inj_hash:
  "chunk_name hash_a src_path text = chunk_name hash_b src_path text \<Longrightarrow> hash_a text = hash_b text"
  by (simp add: chunk_name_def str_int_inj)

lemma chunk_id_create_chunk_dict:
  "chunk_id (create_chunk_dict uuid5 hash text src_path doc_id doc_title chapter section meta)
     = uuid5 (chunk_name hash src_path text)"
  by (simp add: create_chunk_dict_def Let_def)

lemma chunk_document_chunk_ids:
  assumes "chunk_document tokenizer special_tokens uuid5 hash text src_path doc_id doc_title
             chapter section chunk_method max_tokens overlap_tokens = Some (Inr chunk_dicts)"
  shows "map chunk_id chunk_dicts
           = map (\<lambda>c. uuid5 (chunk_name hash src_path c)) (map content chunk_dicts)"
  using assms unfolding chunk_document_def
  by (auto simp: create_chunk_dict_def Let_def split: option.splits sum.splits)

text \<open>
  C3. The identifier is \<open>uuid5\<close> of a name made of the source path, the length of the
  content and the hash of the content, so within one run of the interpreter equal inputs
  give equal identifiers. Two runs hash with different seeds: wherever their hashes of
  the content differ, the two names differ, and the identifiers differ unless \<open>uuid5\<close>
  collides on the two names.
\<close>

theorem chunk_id_depends_on_hash_seed:
  assumes "hash_a text \<noteq> hash_b text"
    and "inj_on uuid5 {chunk_name hash_a src_path text, chunk_name hash_b src_path text}"
  shows "chunk_name hash_a src_path text \<noteq> chunk_name hash_b src_path text
         \<and> chunk_id (create_chunk_dict uuid5 hash_a text src_path doc_id doc_title chapter section meta)
           \<noteq> chunk_id (create_chunk_dict uuid5 hash_b text src_path doc_id doc_title chapter section meta)"
proof -
  from assms(1) have names: "chunk_name hash_a src_path text \<noteq> chunk_name hash_b src_path text"
    using chunk_name_inj_hash by blast
  with assms(2) have "uuid5 (chunk_name hash_a src_path text) \<noteq> uuid5 (chunk_name hash_b src_path text)"
    by (auto dest: inj_onD)
  with names show ?thesis
    by (simp only: chunk_id_create_chunk_dict simp_thms)
qed

theorem chunk_id_depends_on_hash_seed_witness:
  "chunk_id (create_chunk_dict example_uuid5 (example_hash 1) ''hello'' ''book/ch1.md''
       ''doc'' ''Title'' ''1'' ''1.1'' None)
   \<noteq> chunk_id (create_chunk_dict example_uuid5 (example_hash 2) ''hello'' ''book/ch1.md''
       ''doc'' ''Title'' ''1'' ''1.1'' None)"
proof -
  have h1: "example_hash 1 ''hello'' \<noteq> example_hash 2 ''hello''"
    by (simp add: example_hash_def)
  have "inj example_uuid5"
    by (rule injI) (simp add: example_uuid5_def)
  then have h2: "inj_on example_uuid5
      {chunk_name (example_hash 1) ''book/ch1.md'' ''hello'',
       chunk_name (example_hash 2) ''book/ch1.md'' ''hello''}"
    by (rule inj_on_subset) simp
  from chunk_id_depends_on_hash_seed [of "example_hash 1" "''hello''" "example_hash 2"
      example_uuid5 "''book/ch1.md''", OF h1 h2]
  show ?thesis by (rule conjunct2)
qed

end
